theory Spec2Isabelle
  imports Complex_Main "HOL-Library.Word" "HOL-Library.Signed_Division" "HOL-Library.Log_Nat"
begin

section \<open>The mlcache scoring module (drivers/mlcache/mlcache.c)\<close>

text \<open>
  The module is modelled with \<open>CONFIG_MLCACHE_ACTIVE\<close> defined, on a 64-bit kernel:
  \<open>long\<close> and \<open>unsigned long\<close> are 64-bit words, \<open>int\<close> and \<open>unsigned int\<close> are
  32-bit words. The kernel is built with wrapping signed arithmetic
  (\<open>-fno-strict-overflow\<close>), so \<open>+\<close>, \<open>-\<close> and \<open>*\<close> are the word operations, and a
  conversion to a narrower type keeps the low bits (\<open>ucast\<close>), a conversion of a
  signed value to a wider type extends the sign (\<open>scast\<close>).
\<close>

subsection \<open>Kernel library functions used by the module\<close>

text \<open>
  C division of signed integers truncates towards zero. \<open>sdiv\<close> on \<open>int\<close> is that
  division; \<open>sdiv_word\<close> reads both operands as two's complement.
\<close>

definition sdiv_word :: "'a::len word \<Rightarrow> 'a word \<Rightarrow> 'a word" where
  "sdiv_word a b = word_of_int (sint a sdiv sint b)"

text \<open>
  \<open>fls\<close> (include/asm-generic/bitops/fls.h): the position of the most significant set
  bit, counted from 1; \<open>fls(0) = 0\<close>.
\<close>

fun fls :: "nat \<Rightarrow> nat" where
  "fls n = (if n = 0 then 0 else Suc (fls (n div 2)))"

declare fls.simps [simp del]

text \<open>
  \<open>ilog2\<close> (include/linux/log2.h) of an argument of a 32-bit type that is not a
  compile-time constant is \<open>__ilog2_u32(n) = fls(n) - 1\<close>, an \<open>int\<close>; the argument is
  read as unsigned.
\<close>

definition ilog2 :: "32 word \<Rightarrow> 32 word" where
  "ilog2 n = word_of_nat (fls (unat n)) - 1"

text \<open>
  \<open>int_sqrt\<close> (lib/int_sqrt.c) takes and returns an \<open>unsigned long\<close> and computes the
  integer part of the square root. \<open>isqrt\<close> is that function on natural numbers,
  one binary digit of the root for each two of the argument.
\<close>

fun isqrt :: "nat \<Rightarrow> nat" where
  "isqrt n =
     (if n < 2 then n
      else let r = 2 * isqrt (n div 4)
           in if (r + 1) * (r + 1) \<le> n then r + 1 else r)"

declare isqrt.simps [simp del]

definition int_sqrt :: "64 word \<Rightarrow> 64 word" where
  "int_sqrt x = word_of_nat (isqrt (unat x))"

subsection \<open>Data\<close>

type_synonym addr = nat

text \<open>
  Modelled from the spec: the fields of \<open>struct page\<close> the module reads and writes are
  declared in a header outside this file. \<open>mlcache_score\<close> is the signed score (a
  \<open>long\<close>, as \<open>weight_average\<close>, which is assigned to it), \<open>mlcache_plays\<close> the play
  count (an \<open>int\<close>, as the parameter \<open>numPlays\<close> it is passed for), \<open>mapping\<close> the
  pointer to the owning address space (\<open>None\<close> is \<open>NULL\<close>).
\<close>

record page =
  mapping :: "addr option"
  mlcache_score :: "64 word"
  mlcache_plays :: "32 word"

text \<open>
  The file's static variables, together with the pages reachable from the lookup
  (a store from page addresses to pages).
\<close>

record mlcache =
  hits :: "64 word"
  misses :: "64 word"
  t :: "64 word"
  weight_average :: "64 word"
  items_in_cache :: "64 word"
  pages :: "addr \<Rightarrow> page"

text \<open>
  What \<open>radix_tree_deref_slot\<close> returns at one step of \<open>radix_tree_for_each_slot\<close>:
  \<open>NULL\<close>, an entry for which \<open>radix_tree_deref_retry\<close> holds, another exceptional
  entry, or a pointer to a page. The page tree of an address space is the sequence
  of these values in iteration order; a retried slot is read again at the next step.
\<close>

datatype slot = Empty | Retry | Exceptional | Page addr

type_synonym address_space = "slot list"

datatype fault = DivideByZero | DivideOverflow

definition MLCACHE_SCALE :: "'a::len word" where
  "MLCACHE_SCALE = 100"

definition UINT_MAX :: "64 word" where
  "UINT_MAX = 0xFFFFFFFF"

subsection \<open>The functions of the module\<close>

definition get_mlcache_weighted_average :: "mlcache \<Rightarrow> 64 word" where
  "get_mlcache_weighted_average s = weight_average s"

definition upperBound :: "32 word \<Rightarrow> 32 word \<Rightarrow> 64 word" where
  "upperBound step numPlays =
     (if step \<noteq> 0 \<and> numPlays \<noteq> 0
      then int_sqrt (scast (sdiv_word
             (MLCACHE_SCALE * MLCACHE_SCALE * 2 *
                ilog2 (MLCACHE_SCALE * MLCACHE_SCALE * (step + 1)))
             numPlays))
      else 0)"

text \<open>
  \<open>update_page_score(page, by, hit)\<close>. The parameter \<open>by\<close> is only read on a hit.
  \<open>t - 1\<close> and \<open>t\<close> are \<open>unsigned long\<close> and are passed for an \<open>int\<close>;
  the product with \<open>mlcache_plays\<close> is taken in \<open>unsigned long\<close>.
\<close>

definition update_page_score :: "addr \<Rightarrow> 64 word \<Rightarrow> bool \<Rightarrow> mlcache \<Rightarrow> mlcache" where
  "update_page_score p by_amount hit s =
     (let pg = pages s p in
      if mapping pg = None then s
      else if hit then
        let score1 = mlcache_score pg - by_amount;
            score2 = score1 + upperBound (ucast (t s - 1)) (mlcache_plays pg)
                       - upperBound (ucast (t s)) (mlcache_plays pg) * scast (mlcache_plays pg)
        in s\<lparr>pages := (pages s)(p := pg\<lparr>mlcache_score := score2\<rparr>)\<rparr>
      else
        let s1 = (if weight_average s = UINT_MAX then s\<lparr>weight_average := 0\<rparr> else s)
        in s1\<lparr>pages := (pages s1)(p := pg\<lparr>mlcache_score := weight_average s1\<rparr>)\<rparr>)"

text \<open>
  \<open>update_average(page)\<close>. The division is the only operation of the module that can
  trap: by zero, and for the most negative \<open>long\<close> divided by \<open>-1\<close>.
\<close>

definition update_average :: "addr \<Rightarrow> mlcache \<Rightarrow> fault + mlcache" where
  "update_average p s =
     (let s1 = (if items_in_cache s = 0 then s\<lparr>items_in_cache := - 1\<rparr> else s);
          score = mlcache_score (pages s1 p);
          n = items_in_cache s1
      in if n = 0 then Inl DivideByZero
         else if score = - (2 ^ 63) \<and> n = - 1 then Inl DivideOverflow
         else Inr (s1\<lparr>weight_average := weight_average s1 + sdiv_word score n\<rparr>))"

text \<open>
  The loop of \<open>penalize_pages\<close>: the state and the local counter \<open>checked\<close>.
  \<open>cond_resched_rcu\<close> after every 4096 checked pages changes no variable.
\<close>

fun penalize_loop :: "addr \<Rightarrow> slot list \<Rightarrow> 32 word \<Rightarrow> mlcache \<Rightarrow> mlcache \<times> 32 word" where
  "penalize_loop page [] checked s = (s, checked)"
| "penalize_loop page (Empty # rest) checked s = penalize_loop page rest checked s"
| "penalize_loop page (Retry # rest) checked s = penalize_loop page rest checked s"
| "penalize_loop page (Exceptional # rest) checked s = penalize_loop page rest checked s"
| "penalize_loop page (Page p # rest) checked s =
     (if mapping (pages s p) \<noteq> None then penalize_loop page rest checked s
      else if p = page then penalize_loop page rest checked s
      else penalize_loop page rest (checked + 1)
             (update_page_score p (- MLCACHE_SCALE) False s))"

definition penalize_pages :: "addr \<Rightarrow> address_space option \<Rightarrow> mlcache \<Rightarrow> mlcache" where
  "penalize_pages page mapping_arg s =
     (case mapping_arg of
        None \<Rightarrow> s
      | Some tree \<Rightarrow> fst (penalize_loop page tree 0 s))"

text \<open>
  The loop of \<open>update_cache_scores\<close> on a miss: the state, the local counter
  \<open>checked\<close> and the local flag \<open>penalize\<close>. Both \<open>break\<close>s leave the loop.
  \<open>penalize_pages\<close> then walks the same tree from its first slot.
\<close>

fun scan_loop :: "addr \<Rightarrow> slot list \<Rightarrow> 32 word \<Rightarrow> mlcache \<Rightarrow> mlcache \<times> 32 word \<times> bool" where
  "scan_loop page [] checked s = (s, checked, False)"
| "scan_loop page (Empty # rest) checked s = scan_loop page rest checked s"
| "scan_loop page (Retry # rest) checked s = scan_loop page rest checked s"
| "scan_loop page (Exceptional # rest) checked s = scan_loop page rest checked s"
| "scan_loop page (Page p # rest) checked s =
     (if mapping (pages s p) \<noteq> None then scan_loop page rest checked s
      else if p = page then
        (if mlcache_score (pages s p) = 0
         then (update_page_score p 0 False s, checked, False)
         else (s, checked, True))
      else scan_loop page rest (checked + 1)
             (update_page_score p (- MLCACHE_SCALE) False s))"

definition update_cache_scores ::
    "addr \<Rightarrow> address_space option \<Rightarrow> bool \<Rightarrow> mlcache \<Rightarrow> mlcache" where
  "update_cache_scores page mapping_arg hit s =
     (if hit then update_page_score page MLCACHE_SCALE hit s
      else case mapping_arg of
        None \<Rightarrow> s
      | Some tree \<Rightarrow>
          (case scan_loop page tree 0 s of
             (s1, checked, penalize) \<Rightarrow>
               if penalize then penalize_pages page mapping_arg s1 else s1))"

text \<open>
  \<open>mlcache_pageget(data, page, mapping, hit)\<close>, the probe of the lookup tracepoint.
  \<open>page\<close> is \<open>None\<close> for a \<open>NULL\<close> pointer.
\<close>

definition mlcache_pageget ::
    "addr option \<Rightarrow> address_space option \<Rightarrow> bool \<Rightarrow> mlcache \<Rightarrow> fault + mlcache" where
  "mlcache_pageget page mapping_arg hit s =
     (case page of
        None \<Rightarrow> Inr s
      | Some p \<Rightarrow>
          let s1 = (if hit then s\<lparr>hits := hits s + 1\<rparr> else s\<lparr>misses := misses s + 1\<rparr>);
              s2 = s1\<lparr>t := t s1 + 1\<rparr>;
              s3 = update_cache_scores p mapping_arg hit s2;
              s4 = s3\<lparr>items_in_cache := items_in_cache s3 + 1\<rparr>
          in update_average p s4)"

text \<open>
  \<open>mlcache_init\<close>. \<open>entry\<close> is what \<open>proc_create\<close> returned (\<open>None\<close> for \<open>NULL\<close>);
  \<open>registered\<close> records whether \<open>register_trace_mlcache_event\<close> has been called.
  The function returns an \<open>int\<close>: \<open>NULL\<close> converts to 0.
\<close>

record module =
  engine :: mlcache
  registered :: bool

definition mlcache_init :: "addr option \<Rightarrow> module \<Rightarrow> 32 word \<times> module" where
  "mlcache_init entry m =
     (case entry of
        None \<Rightarrow> (0, m)
      | Some e \<Rightarrow>
          (0, m\<lparr>engine := (engine m)\<lparr>hits := 0, misses := 0, t := 0\<rparr>,
                registered := True\<rparr>))"

text \<open>
  A sequence of lookups, each one call of the probe; a trap ends the run.
\<close>

fun lookups ::
    "(addr option \<times> address_space option \<times> bool) list \<Rightarrow> mlcache \<Rightarrow> fault + mlcache" where
  "lookups [] s = Inr s"
| "lookups ((page, mapping_arg, hit) # rest) s =
     (case mlcache_pageget page mapping_arg hit s of
        Inl f \<Rightarrow> Inl f
      | Inr s' \<Rightarrow> lookups rest s')"

subsection \<open>The specification's formulas\<close>

text \<open>
  The bound as the specification words it, over the natural numbers and with the
  real logarithm and square root rounded down:
  \<open>sqrt(2 * K\<^sup>2 * log2(K\<^sup>2 * (step + 1)) / plays)\<close>, and 0 when \<open>step\<close> or \<open>plays\<close> is 0.
\<close>

definition K :: nat where
  "K = 100"

definition bound_spec :: "nat \<Rightarrow> nat \<Rightarrow> nat" where
  "bound_spec step plays =
     (if step = 0 \<or> plays = 0 then 0
      else nat \<lfloor>sqrt (real (2 * K\<^sup>2 * nat \<lfloor>log 2 (real (K\<^sup>2 * (step + 1)))\<rfloor> div plays))\<rfloor>)"


text \<open>
  The fold of the average as the specification words it: saturate the count to the
  maximum representable value if it is 0 (the count is a \<open>long\<close>, whose maximum is
  \<open>2\<^sup>6\<^sup>3 - 1\<close>), add the score divided by the count, then increment the count.
\<close>

definition fold_spec :: "addr \<Rightarrow> mlcache \<Rightarrow> mlcache" where
  "fold_spec p s =
     (let s1 = (if items_in_cache s = 0 then s\<lparr>items_in_cache := 2 ^ 63 - 1\<rparr> else s);
          s2 = s1\<lparr>weight_average :=
                  weight_average s1 + sdiv_word (mlcache_score (pages s1 p)) (items_in_cache s1)\<rparr>
      in s2\<lparr>items_in_cache := items_in_cache s2 + 1\<rparr>)"

subsection \<open>Example states\<close>

definition shadow :: "64 word \<Rightarrow> 32 word \<Rightarrow> page" where
  "shadow score plays = \<lparr>mapping = None, mlcache_score = score, mlcache_plays = plays\<rparr>"

definition resident :: "64 word \<Rightarrow> 32 word \<Rightarrow> page" where
  "resident score plays = \<lparr>mapping = Some 1, mlcache_score = score, mlcache_plays = plays\<rparr>"

text \<open>An engine right after start-up; every page is resident with score and plays 0.\<close>

definition fresh :: mlcache where
  "fresh = \<lparr>hits = 0, misses = 0, t = 0, weight_average = 0, items_in_cache = 0,
            pages = (\<lambda>a. resident 0 0)\<rparr>"

text \<open>
  An engine in its first round with average 42. Page 1 is a shadow with score 5,
  pages 2 and 3 are shadows with score 0, page 4 is a shadow with score 0 that has
  been played once, page 5 is resident with score 7.
\<close>

definition running :: mlcache where
  "running = \<lparr>hits = 0, misses = 0, t = 1, weight_average = 42, items_in_cache = 1,
              pages = (\<lambda>a. shadow 0 0)(1 := shadow 5 0, 4 := shadow 0 1, 5 := resident 7 0)\<rparr>"

text \<open>An engine in its third round; page 1 is resident with score 7 and two plays.\<close>

definition hitting :: mlcache where
  "hitting = \<lparr>hits = 2, misses = 0, t = 3, weight_average = 0, items_in_cache = 2,
              pages = (\<lambda>a. shadow 0 0)(1 := resident 7 2)\<rparr>"

text \<open>
  An engine in round 429497, the first round in which \<open>K\<^sup>2 * (t + 1)\<close> no longer
  fits 32 bits; page 1 is resident with score 0 and one play.
\<close>

definition wrapped :: mlcache where
  "wrapped = \<lparr>hits = 429496, misses = 0, t = 429497, weight_average = 0,
              items_in_cache = 429496, pages = (\<lambda>a. shadow 0 0)(1 := resident 0 1)\<rparr>"

text \<open>An engine whose count is 0, with average 42; every page is a shadow with score 5.\<close>

definition saturating :: mlcache where
  "saturating = \<lparr>hits = 0, misses = 0, t = 1, weight_average = 42, items_in_cache = 0,
                 pages = (\<lambda>a. shadow 5 0)\<rparr>"

section \<open>Properties of the library functions\<close>

lemma isqrt_bounds: "(isqrt n)\<^sup>2 \<le> n \<and> n < (isqrt n + 1)\<^sup>2"
proof (induction n rule: isqrt.induct)
  case (1 n)
  show ?case
  proof (cases "n < 2")
    case True
    then have "isqrt n = n" by (subst isqrt.simps) simp
    moreover have "n = 0 \<or> n = 1" using True by arith
    ultimately show ?thesis by (auto simp: power2_eq_square)
  next
    case False
    define q where "q = isqrt (n div 4)"
    have ih: "q\<^sup>2 \<le> n div 4 \<and> n div 4 < (q + 1)\<^sup>2"
      using "1.IH" False by (simp add: q_def)
    have lo: "(2 * q)\<^sup>2 \<le> n"
    proof -
      have "(2 * q)\<^sup>2 = 4 * q\<^sup>2" by (simp add: power2_eq_square)
      also have "\<dots> \<le> 4 * (n div 4)" using ih by simp
      also have "\<dots> \<le> n" by simp
      finally show ?thesis .
    qed
    have hi: "n < (2 * q + 2)\<^sup>2"
    proof -
      have "n < 4 * (n div 4 + 1)" by arith
      also have "\<dots> \<le> 4 * (q + 1)\<^sup>2" using ih by simp
      also have "\<dots> = (2 * q + 2)\<^sup>2" by (simp add: power2_eq_square algebra_simps)
      finally show ?thesis .
    qed
    have unfold: "isqrt n = (if (2 * q + 1) * (2 * q + 1) \<le> n then 2 * q + 1 else 2 * q)"
      using False by (subst isqrt.simps) (simp add: q_def Let_def)
    show ?thesis
    proof (cases "(2 * q + 1) * (2 * q + 1) \<le> n")
      case True
      then show ?thesis using unfold hi by (simp add: power2_eq_square)
    next
      case False
      then show ?thesis using unfold lo by (simp add: power2_eq_square)
    qed
  qed
qed

text \<open>\<open>isqrt\<close> is the real square root rounded down.\<close>

lemma isqrt_floor_sqrt: "nat \<lfloor>sqrt (real n)\<rfloor> = isqrt n"
proof -
  have lo: "(isqrt n)\<^sup>2 \<le> n" and hi: "n < (isqrt n + 1)\<^sup>2"
    using isqrt_bounds [of n] by simp_all
  have "(real (isqrt n))\<^sup>2 \<le> real n"
    using lo by (metis of_nat_le_iff of_nat_power)
  then have a: "real (isqrt n) \<le> sqrt (real n)"
    by (rule real_le_rsqrt)
  have "real n < (real (isqrt n + 1))\<^sup>2"
    using hi by (metis of_nat_less_iff of_nat_power)
  then have b: "sqrt (real n) < real (isqrt n + 1)"
    by (intro real_less_lsqrt) simp_all
  have "\<lfloor>sqrt (real n)\<rfloor> = int (isqrt n)"
    using a b by (intro floor_unique) simp_all
  then show ?thesis by simp
qed

lemma isqrt_le: "isqrt n \<le> n"
proof -
  have "isqrt n \<le> (isqrt n)\<^sup>2" by (simp add: power2_nat_le_imp_le)
  also have "\<dots> \<le> n" using isqrt_bounds [of n] by simp
  finally show ?thesis .
qed

lemma fls_floorlog: "fls n = floorlog 2 n"
proof (induction n rule: fls.induct)
  case (1 n)
  show ?case
  proof (cases "n = 0")
    case True
    then show ?thesis by (simp add: fls.simps floorlog_def)
  next
    case False
    then have "fls n = Suc (fls (n div 2))" by (subst fls.simps) simp
    also have "\<dots> = Suc (floorlog 2 (n div 2))" using "1.IH" False by simp
    also have "\<dots> = floorlog 2 n" using False by (subst (2) compute_floorlog) simp
    finally show ?thesis .
  qed
qed

text \<open>\<open>fls n - 1\<close> is the real binary logarithm rounded down.\<close>

lemma floor_log2_fls: "0 < n \<Longrightarrow> nat \<lfloor>log 2 (real n)\<rfloor> = fls n - 1"
  by (simp add: fls_floorlog floorlog_def)

lemma fls_le: "n < 2 ^ k \<Longrightarrow> fls n \<le> k"
  by (simp add: fls_floorlog floorlog_le_iff)

lemma fls_pos: "0 < n \<Longrightarrow> 0 < fls n"
  by (subst fls.simps) simp

lemma bound_spec_eq:
  "bound_spec step plays =
     (if step = 0 \<or> plays = 0 then 0
      else isqrt (20000 * (fls (10000 * (step + 1)) - 1) div plays))"
proof -
  have L: "nat \<lfloor>log 2 (real (K\<^sup>2 * (step + 1)))\<rfloor> = fls (K\<^sup>2 * (step + 1)) - 1"
    by (rule floor_log2_fls) (simp add: K_def)
  show ?thesis
    unfolding bound_spec_def isqrt_floor_sqrt L by (simp add: K_def)
qed

subsection \<open>Conversions between words and numbers\<close>

lemma unat_of_nat32: "m < 2 ^ 32 \<Longrightarrow> unat (word_of_nat m :: 32 word) = m"
  by (simp add: unat_of_nat)

lemma unat_of_nat64: "m < 2 ^ 64 \<Longrightarrow> unat (word_of_nat m :: 64 word) = m"
  by (simp add: unat_of_nat)

lemma sint_of_nat_small:
  assumes "m < 2 ^ 31"
  shows "sint (word_of_nat m :: 32 word) = int m"
proof -
  have "signed_take_bit 31 (int m) = int m"
    using assms by (intro signed_take_bit_int_eq_self) simp_all
  then show ?thesis by (simp add: signed_of_nat)
qed

lemma sint_pos_unat:
  assumes "0 < sint (w :: 32 word)"
  shows "sint w = int (unat w)"
proof -
  have sw: "sint w = signed_take_bit 31 (uint w)"
    by (simp add: sint_uint)
  show ?thesis
  proof (cases "uint w < 2 ^ 31")
    case True
    have "- (2 ^ 31) \<le> (0::int)" by simp
    also have "0 \<le> uint w" by simp
    finally have "- (2 ^ 31) \<le> uint w" .
    then have "signed_take_bit 31 (uint w) = uint w"
      using True by (intro signed_take_bit_int_eq_self)
    then show ?thesis using sw by simp
  next
    case False
    then have "signed_take_bit 31 (uint w) \<le> uint w - 2 ^ Suc 31"
      by (intro signed_take_bit_int_less_eq) simp
    moreover have "uint w < 2 ^ Suc 31"
      using uint_bounded [of w] by simp
    ultimately have "signed_take_bit 31 (uint w) < 0" by linarith
    with assms sw show ?thesis by linarith
  qed
qed

lemma sint_nonneg_unat:
  assumes "0 \<le> sint (w :: 32 word)"
  shows "sint w = int (unat w)"
proof -
  have sw: "sint w = signed_take_bit 31 (uint w)"
    by (simp add: sint_uint)
  show ?thesis
  proof (cases "uint w < 2 ^ 31")
    case True
    have "- (2 ^ 31) \<le> (0::int)" by simp
    also have "0 \<le> uint w" by simp
    finally have "- (2 ^ 31) \<le> uint w" .
    then have "signed_take_bit 31 (uint w) = uint w"
      using True by (intro signed_take_bit_int_eq_self)
    then show ?thesis using sw by simp
  next
    case False
    then have "signed_take_bit 31 (uint w) \<le> uint w - 2 ^ Suc 31"
      by (intro signed_take_bit_int_less_eq) simp
    moreover have "uint w < 2 ^ Suc 31"
      using uint_bounded [of w] by simp
    ultimately have "signed_take_bit 31 (uint w) < 0" by linarith
    with assms sw show ?thesis by linarith
  qed
qed

lemma scast_nonneg:
  assumes "0 \<le> sint (w :: 32 word)"
  shows "(scast w :: 64 word) = word_of_nat (unat w)"
  unfolding scast_eq sint_nonneg_unat [OF assms] by simp

text \<open>Passing an \<open>unsigned long\<close> below \<open>2\<^sup>3\<^sup>2\<close> for an \<open>int\<close> keeps its value.\<close>

lemma ucast_round:
  assumes "unat (w :: 64 word) < 2 ^ 32"
  shows "unat (ucast w :: 32 word) = unat w"
  using assms by (simp add: unsigned_ucast_eq take_bit_nat_eq_self)

lemma unat_count_succ:
  assumes "unat (c :: 64 word) + 1 < 2 ^ 64 - 1"
  shows "unat (c + 1) = unat c + 1" and "c + 1 \<noteq> 0" and "c + 1 \<noteq> - 1"
proof -
  have "unat c + unat (1 :: 64 word) < 2 ^ LENGTH(64)"
    using assms by simp
  then have "unat (c + 1) = unat c + unat (1 :: 64 word)"
    by (simp only: unat_add_lem [THEN iffD1])
  then show u: "unat (c + 1) = unat c + 1" by simp
  then have "0 < unat (c + 1)" by simp
  then show "c + 1 \<noteq> 0" by (simp add: unat_gt_0)
  have "unat (- 1 :: 64 word) = 2 ^ 64 - 1"
    by (simp add: unsigned_minus_1_eq_mask mask_eq_exp_minus_1)
  then have "unat (c + 1) \<noteq> unat (- 1 :: 64 word)"
    using u assms by simp
  then show "c + 1 \<noteq> - 1" by (rule contrapos_nn) (rule arg_cong)
qed

lemma sdiv_nat: "int a sdiv int b = int (a div b)"
  by (cases "a = 0"; cases "b = 0") (simp_all add: signed_divide_int_def zdiv_int)

lemma sdiv_word_one: "sdiv_word (x :: 64 word) 1 = x"
  by (simp add: sdiv_word_def)

text \<open>The quotient is rounded towards zero, as in C.\<close>

lemma sdiv_word_truncates:
  "sdiv_word (- 7 :: 64 word) 2 = - 3" "sdiv_word (7 :: 64 word) (- 2) = - 3"
  by (simp_all add: sdiv_word_def)

section \<open>The bound\<close>

lemma upperBound_zero_step: "upperBound 0 plays = 0"
  by (simp add: upperBound_def)

lemma upperBound_zero_plays: "upperBound step 0 = 0"
  by (simp add: upperBound_def)

lemmas upperBound_eval =
  upperBound_def MLCACHE_SCALE_def ilog2_def fls.simps int_sqrt_def isqrt.simps sdiv_word_def

lemma upperBound_1_1: "upperBound 1 1 = 529"
  by (simp add: upperBound_eval)

text \<open>
  Where neither product overflows the 32-bit \<open>int\<close> read as unsigned, and the number
  of plays is positive, the code computes the specification's bound.
\<close>

lemma upperBound_in_range:
  assumes step: "step \<noteq> 0" and fits: "10000 * (unat step + 1) < 2 ^ 32"
    and plays: "0 < sint plays"
  shows "unat (upperBound step plays) = bound_spec (unat step) (unat plays)"
proof -
  define n where "n = unat step"
  define p where "p = unat plays"
  define k where "k = fls (10000 * (n + 1))"
  define q where "q = 20000 * (k - 1) div p"
  have n_pos: "0 < n" using step by (simp add: n_def unat_gt_0)
  have p_sint: "sint plays = int p"
    unfolding p_def using plays by (rule sint_pos_unat)
  have p_pos: "0 < p" using plays p_sint by simp
  have plays_ne: "plays \<noteq> 0" using p_pos by (auto simp: p_def)
  have k_pos: "0 < k" unfolding k_def by (rule fls_pos) simp
  have k_le: "k \<le> 32" unfolding k_def using fits by (intro fls_le) (simp add: n_def)
  have A: "MLCACHE_SCALE * MLCACHE_SCALE * (step + 1) = (word_of_nat (10000 * (n + 1)) :: 32 word)"
    by (simp add: MLCACHE_SCALE_def n_def)
  have unat_A: "unat (word_of_nat (10000 * (n + 1)) :: 32 word) = 10000 * (n + 1)"
    using fits unfolding n_def [symmetric] by (rule unat_of_nat32)
  have L: "ilog2 (word_of_nat (10000 * (n + 1))) = word_of_nat (k - 1)"
    using k_pos unfolding ilog2_def unat_A k_def [symmetric] by simp
  have B: "MLCACHE_SCALE * MLCACHE_SCALE * 2 * (word_of_nat (k - 1) :: 32 word)
             = word_of_nat (20000 * (k - 1))"
    by (simp add: MLCACHE_SCALE_def)
  have B_small: "20000 * (k - 1) < (2::nat) ^ 31" using k_le by simp
  have q_small: "q < 2 ^ 31"
    unfolding q_def using B_small div_le_dividend le_less_trans by blast
  have D: "sdiv_word (word_of_nat (20000 * (k - 1)) :: 32 word) plays = word_of_nat q"
    unfolding sdiv_word_def sint_of_nat_small [OF B_small] p_sint sdiv_nat q_def by simp
  have S: "(scast (word_of_nat q :: 32 word) :: 64 word) = word_of_nat q"
    unfolding scast_eq sint_of_nat_small [OF q_small] by simp
  have q_64: "q < 2 ^ 64"
    using q_small by (rule less_trans) simp
  have unat_q: "unat (word_of_nat q :: 64 word) = q"
    using q_64 by (rule unat_of_nat64)
  have "isqrt q < 2 ^ 64"
    using isqrt_le [of q] q_64 by (rule le_less_trans)
  then have unat_r: "unat (word_of_nat (isqrt q) :: 64 word) = isqrt q"
    by (rule unat_of_nat64)
  have "upperBound step plays = word_of_nat (isqrt q)"
    using step plays_ne unfolding upperBound_def A L B D S int_sqrt_def unat_q by simp
  then have "unat (upperBound step plays) = isqrt q" using unat_r by simp
  moreover have "bound_spec n p = isqrt q"
    using n_pos p_pos by (simp add: bound_spec_eq q_def k_def)
  ultimately show ?thesis by (simp add: n_def p_def)
qed

text \<open>
  The same with the result as a word, including the cases where the bound is 0.
\<close>

lemma upperBound_bound_spec:
  assumes fits: "10000 * (unat step + 1) < 2 ^ 32" and plays: "0 \<le> sint plays"
  shows "upperBound step plays = word_of_nat (bound_spec (unat step) (unat plays))"
proof (cases "step = 0 \<or> plays = 0")
  case True
  then show ?thesis
    by (auto simp: upperBound_zero_step upperBound_zero_plays bound_spec_def)
next
  case False
  then have "0 < unat plays" by (simp add: unat_gt_0)
  then have "0 < int (unat plays)" by (rule iffD2 [OF of_nat_0_less_iff])
  then have "0 < sint plays"
    using sint_nonneg_unat [OF plays] by linarith
  then have "unat (upperBound step plays) = bound_spec (unat step) (unat plays)"
    using False fits by (intro upperBound_in_range) simp_all
  then have "word_of_nat (unat (upperBound step plays)) =
      (word_of_nat (bound_spec (unat step) (unat plays)) :: 64 word)"
    by simp
  then show ?thesis by simp
qed

section \<open>The score update and the scan\<close>

text \<open>
  A hit in a round whose number is not 0 and keeps \<open>K\<^sup>2 * (t + 1)\<close> below \<open>2\<^sup>3\<^sup>2\<close>, on
  a page with a live mapping and a play count that is not negative: the new score,
  with the specification's bound of the round counter.
\<close>

lemma hit_score_in_range:
  assumes live: "mapping (pages s page) \<noteq> None"
    and t0: "t s \<noteq> 0" and fits: "10000 * (unat (t s) + 1) < 2 ^ 32"
    and plays: "0 \<le> sint (mlcache_plays (pages s page))"
  shows "mlcache_score (pages (update_cache_scores page mapping_arg True s) page) =
           mlcache_score (pages s page) - 100
           + word_of_nat (bound_spec (unat (t s) - 1) (unat (mlcache_plays (pages s page))))
           - word_of_nat (bound_spec (unat (t s)) (unat (mlcache_plays (pages s page))))
               * word_of_nat (unat (mlcache_plays (pages s page)))"
proof -
  define n where "n = mlcache_plays (pages s page)"
  have small: "unat (t s) < 2 ^ 32" using fits by simp
  have prev: "unat (t s - 1) = unat (t s) - 1"
    using t0 by (rule unat_minus_one)
  have small': "unat (t s - 1) < 2 ^ 32" using small prev by simp
  have u1: "unat (ucast (t s) :: 32 word) = unat (t s)"
    using small by (rule ucast_round)
  have u0: "unat (ucast (t s - 1) :: 32 word) = unat (t s) - 1"
    using ucast_round [OF small'] prev by simp
  have b1: "upperBound (ucast (t s)) n = word_of_nat (bound_spec (unat (t s)) (unat n))"
    using upperBound_bound_spec [of "ucast (t s)" n] fits plays unfolding u1 n_def by simp
  have "10000 * (unat (t s) - 1 + 1) < (2::nat) ^ 32" using fits by simp
  then have b0: "upperBound (ucast (t s - 1)) n =
      word_of_nat (bound_spec (unat (t s) - 1) (unat n))"
    using upperBound_bound_spec [of "ucast (t s - 1)" n] plays unfolding u0 n_def by simp
  have sc: "(scast n :: 64 word) = word_of_nat (unat n)"
    using plays unfolding n_def by (rule scast_nonneg)
  have "mlcache_score (pages (update_cache_scores page mapping_arg True s) page) =
          mlcache_score (pages s page) - 100 + upperBound (ucast (t s - 1)) n
            - upperBound (ucast (t s)) n * scast n"
    using live by (auto simp: update_cache_scores_def update_page_score_def Let_def
        MLCACHE_SCALE_def n_def)
  then show ?thesis unfolding b0 b1 sc unfolding n_def .
qed

lemma update_page_score_unmapped:
  "mapping (pages s p) = None \<Longrightarrow> update_page_score p by_amount hit s = s"
  by (simp add: update_page_score_def)

lemma update_page_score_other:
  "q \<noteq> p \<Longrightarrow> pages (update_page_score p by_amount hit s) q = pages s q"
  by (simp add: update_page_score_def Let_def)

lemma update_page_score_plays:
  "mlcache_plays (pages (update_page_score p by_amount hit s) q) = mlcache_plays (pages s q)"
  by (simp add: update_page_score_def Let_def)

lemma update_page_score_items:
  "items_in_cache (update_page_score p by_amount hit s) = items_in_cache s"
  by (simp add: update_page_score_def Let_def)

text \<open>
  Both loops only pass pages with a null mapping to \<open>update_page_score\<close>, which
  returns at once for them: the loops leave the state as it is.
\<close>

lemma penalize_loop_state: "fst (penalize_loop page tree checked s) = s"
proof (induction tree arbitrary: checked)
  case Nil
  show ?case by simp
next
  case (Cons sl rest)
  show ?case
  proof (cases sl)
    case (Page p)
    then show ?thesis
      using Cons.IH by (simp add: update_page_score_unmapped)
  qed (simp_all add: Cons.IH)
qed

lemma scan_loop_state: "fst (scan_loop page tree checked s) = s"
proof (induction tree arbitrary: checked)
  case Nil
  show ?case by simp
next
  case (Cons sl rest)
  show ?case
  proof (cases sl)
    case (Page p)
    then show ?thesis
      using Cons.IH by (simp add: update_page_score_unmapped)
  qed (simp_all add: Cons.IH)
qed

lemma penalize_pages_state: "penalize_pages page mapping_arg s = s"
  by (cases mapping_arg) (simp_all add: penalize_pages_def penalize_loop_state)

lemma update_cache_scores_miss: "update_cache_scores page mapping_arg False s = s"
proof (cases mapping_arg)
  case None
  then show ?thesis by (simp add: update_cache_scores_def)
next
  case (Some tree)
  obtain s1 checked penalize where scan: "scan_loop page tree 0 s = (s1, checked, penalize)"
    by (cases "scan_loop page tree 0 s") auto
  have "s1 = s"
    using scan_loop_state [of page tree 0 s] scan by simp
  then show ?thesis
    using Some scan by (simp add: update_cache_scores_def penalize_pages_state)
qed

lemma update_cache_scores_items:
  "items_in_cache (update_cache_scores page mapping_arg hit s) = items_in_cache s"
  by (cases hit) (simp_all add: update_cache_scores_miss,
      simp add: update_cache_scores_def update_page_score_items)


section \<open>The running average\<close>

lemma update_average_pages:
  "update_average p s = Inr s' \<Longrightarrow> pages s' = pages s"
  by (auto simp: update_average_def Let_def split: if_splits)

text \<open>No lookup writes a play count.\<close>

lemma update_cache_scores_plays:
  "mlcache_plays (pages (update_cache_scores page mapping_arg hit s) q) = mlcache_plays (pages s q)"
  by (cases hit) (simp_all add: update_cache_scores_miss,
      simp add: update_cache_scores_def update_page_score_plays)

lemma mlcache_pageget_plays:
  assumes "mlcache_pageget page mapping_arg hit s = Inr s'"
  shows "mlcache_plays (pages s' q) = mlcache_plays (pages s q)"
proof (cases page)
  case None
  then show ?thesis using assms by (simp add: mlcache_pageget_def)
next
  case (Some p)
  then have "pages s' =
      pages (update_cache_scores p mapping_arg hit
        ((if hit then s\<lparr>hits := hits s + 1\<rparr> else s\<lparr>misses := misses s + 1\<rparr>)\<lparr>t := t s + 1\<rparr>))"
    using assms update_average_pages [of p _ s']
    by (cases hit) (auto simp: mlcache_pageget_def Let_def)
  then show ?thesis
    by (cases hit) (simp_all add: update_cache_scores_plays)
qed

lemma update_average_no_div0: "update_average p s \<noteq> Inl DivideByZero"
  by (simp add: update_average_def Let_def)

lemma mlcache_pageget_no_div0: "mlcache_pageget page mapping_arg hit s \<noteq> Inl DivideByZero"
  by (cases page) (simp_all add: mlcache_pageget_def Let_def update_average_no_div0)

lemma lookups_no_div0: "lookups evs s \<noteq> Inl DivideByZero"
proof (induction evs arbitrary: s)
  case Nil
  show ?case by simp
next
  case (Cons ev evs)
  obtain page mapping_arg hit where ev: "ev = (page, mapping_arg, hit)"
    by (cases ev) auto
  show ?case
  proof (cases "mlcache_pageget page mapping_arg hit s")
    case (Inl f)
    then have "f \<noteq> DivideByZero"
      using mlcache_pageget_no_div0 [of page mapping_arg hit s] by auto
    then show ?thesis using Inl ev by simp
  next
    case (Inr s')
    then show ?thesis using ev Cons.IH by simp
  qed
qed

text \<open>
  With a count that is not 0, \<open>update_average\<close> returns unless the division overflows,
  and leaves the count as it is.
\<close>

lemma update_average_nonzero_count:
  assumes "items_in_cache s \<noteq> 0"
    and "\<not> (mlcache_score (pages s p) = - (2 ^ 63) \<and> items_in_cache s = - 1)"
  shows "update_average p s =
           Inr (s\<lparr>weight_average :=
                   weight_average s + sdiv_word (mlcache_score (pages s p)) (items_in_cache s)\<rparr>)"
  using assms by (auto simp: update_average_def Let_def)

text \<open>With a count of 0 it divides by the count it has stored, which is not 0.\<close>

lemma update_average_zero_count:
  assumes "items_in_cache s = 0" and "mlcache_score (pages s p) \<noteq> - (2 ^ 63)"
  shows "\<exists>s'. update_average p s = Inr s' \<and> items_in_cache s' \<noteq> 0
           \<and> weight_average s' =
               weight_average s + sdiv_word (mlcache_score (pages s p)) (items_in_cache s')"
  using assms by (simp add: update_average_def Let_def)

lemma mlcache_pageget_unfold:
  "mlcache_pageget (Some p) mapping_arg hit s =
     update_average p
       ((update_cache_scores p mapping_arg hit
           ((if hit then s\<lparr>hits := hits s + 1\<rparr> else s\<lparr>misses := misses s + 1\<rparr>)
              \<lparr>t := t s + 1\<rparr>))
        \<lparr>items_in_cache := items_in_cache s + 1\<rparr>)"
  by (cases hit) (simp_all add: mlcache_pageget_def Let_def update_cache_scores_items)

text \<open>
  While the count stays below its two largest values, a lookup returns and has
  counted one more item.
\<close>

lemma mlcache_pageget_count:
  assumes "unat (items_in_cache s) + 1 < 2 ^ 64 - 1"
  shows "\<exists>s'. mlcache_pageget (Some p) mapping_arg hit s = Inr s'
           \<and> unat (items_in_cache s') = unat (items_in_cache s) + 1"
proof -
  define s4 where "s4 = (update_cache_scores p mapping_arg hit
             ((if hit then s\<lparr>hits := hits s + 1\<rparr> else s\<lparr>misses := misses s + 1\<rparr>)
                \<lparr>t := t s + 1\<rparr>))
          \<lparr>items_in_cache := items_in_cache s + 1\<rparr>"
  have get: "mlcache_pageget (Some p) mapping_arg hit s = update_average p s4"
    unfolding s4_def by (rule mlcache_pageget_unfold)
  have c: "items_in_cache s4 = items_in_cache s + 1" by (simp add: s4_def)
  note cnt = unat_count_succ [OF assms]
  have "update_average p s4 =
          Inr (s4\<lparr>weight_average :=
                   weight_average s4 + sdiv_word (mlcache_score (pages s4 p)) (items_in_cache s4)\<rparr>)"
    using cnt(2,3) c by (intro update_average_nonzero_count) simp_all
  then show ?thesis
    using get c cnt(1) by simp
qed

lemma lookups_total:
  "unat (items_in_cache s) + length evs < 2 ^ 64 - 1 \<Longrightarrow>
   \<exists>s'. lookups evs s = Inr s'
     \<and> unat (items_in_cache s') =
         unat (items_in_cache s) + length (filter (\<lambda>ev. fst ev \<noteq> None) evs)"
proof (induction evs arbitrary: s)
  case Nil
  show ?case by simp
next
  case (Cons ev evs)
  obtain page mapping_arg hit where ev: "ev = (page, mapping_arg, hit)"
    by (cases ev) auto
  show ?case
  proof (cases page)
    case None
    have "unat (items_in_cache s) + length evs < 2 ^ 64 - 1"
      using Cons.prems by simp
    from Cons.IH [OF this] show ?thesis
      using None ev by (simp add: mlcache_pageget_def)
  next
    case (Some p)
    have "unat (items_in_cache s) + 1 < 2 ^ 64 - 1"
      using Cons.prems by simp
    from mlcache_pageget_count [OF this, of p mapping_arg hit]
    obtain s1 where s1: "mlcache_pageget (Some p) mapping_arg hit s = Inr s1"
      and c1: "unat (items_in_cache s1) = unat (items_in_cache s) + 1"
      by blast
    have "unat (items_in_cache s1) + length evs < 2 ^ 64 - 1"
      using Cons.prems c1 by simp
    from Cons.IH [OF this] show ?thesis
      using Some ev s1 c1 by simp
  qed
qed

section \<open>The example states\<close>

lemma running_fields:
  "hits running = 0" "misses running = 0" "t running = 1"
  "weight_average running = 42" "items_in_cache running = 1"
  by (simp_all add: running_def)

lemma running_mapping: "mapping (pages running a) = (if a = 5 then Some 1 else None)"
  by (simp add: running_def shadow_def resident_def)

lemma running_score:
  "mlcache_score (pages running a) = (if a = 1 then 5 else if a = 5 then 7 else 0)"
  by (simp add: running_def shadow_def resident_def)

lemma running_plays: "mlcache_plays (pages running a) = (if a = 4 then 1 else 0)"
  by (simp add: running_def shadow_def resident_def)

lemmas running_eval = running_fields running_mapping running_score running_plays

lemma fresh_fields:
  "hits fresh = 0" "misses fresh = 0" "t fresh = 0"
  "weight_average fresh = 0" "items_in_cache fresh = 0"
  "pages fresh a = resident 0 0"
  by (simp_all add: fresh_def)

lemma hitting_fields:
  "t hitting = 3" "pages hitting a = (if a = 1 then resident 7 2 else shadow 0 0)"
  by (simp_all add: hitting_def)

lemma wrapped_fields:
  "t wrapped = 429497" "pages wrapped a = (if a = 1 then resident 0 1 else shadow 0 0)"
  by (simp_all add: wrapped_def)

lemma saturating_fields:
  "items_in_cache saturating = 0" "weight_average saturating = 42"
  "mlcache_score (pages saturating a) = 5"
  by (simp_all add: saturating_def shadow_def)

lemma resident_fields:
  "mapping (resident score plays) = Some 1"
  "mlcache_score (resident score plays) = score"
  "mlcache_plays (resident score plays) = plays"
  "(resident score plays)\<lparr>mlcache_score := score'\<rparr> = resident score' plays"
  by (simp_all add: resident_def)

section \<open>The claims\<close>

text \<open>
  C1. On a miss where the missed item's own entry is found with a nonzero score, the
  scan stops and every other shadow item of the collection is to end with its score
  reduced by K = 100. The code sets the \<open>penalize\<close> flag and runs \<open>penalize_pages\<close>, but
  no score changes: in \<open>running\<close>, page 1 is missed and found with score 5, pages 2
  and 3 are the other shadow items, and both keep score 0 rather than going to -100.
\<close>

theorem penalty_pass_changes_no_score:
  "snd (snd (scan_loop 1 [Page 2, Page 1, Page 3] 0 running))
   \<and> mlcache_score
       (pages (update_cache_scores 1 (Some [Page 2, Page 1, Page 3]) False running) 2) = 0
   \<and> mlcache_score
       (pages (update_cache_scores 1 (Some [Page 2, Page 1, Page 3]) False running) 3) = 0"
  by (simp add: update_cache_scores_def penalize_pages_def update_page_score_unmapped
      running_eval)

text \<open>
  C2. On a miss, \<open>update_cache_scores\<close> changes nothing at all: every page it passes to
  \<open>update_page_score\<close> has a null mapping, for which that function returns at once.
  So a whole lookup that misses leaves every page as it was.
\<close>

theorem miss_path_changes_nothing:
  "update_cache_scores page mapping_arg False s = s
   \<and> (mapping (pages s p) = None \<longrightarrow> update_page_score p by_amount hit s = s)
   \<and> (\<forall>s'. mlcache_pageget (Some page) mapping_arg False s = Inr s' \<longrightarrow> pages s' = pages s)"
  by (auto simp: update_cache_scores_miss update_page_score_unmapped mlcache_pageget_def Let_def
      dest: update_average_pages)

theorem miss_path_changes_nothing_witness:
  "mapping (pages running 2) = None
   \<and> mlcache_pageget (Some 1) (Some [Page 2, Page 1, Page 3]) False running
       = Inr (running\<lparr>misses := 1, t := 2, weight_average := 44, items_in_cache := 2\<rparr>)
   \<and> update_cache_scores 1 (Some [Page 2, Page 1, Page 3]) False running = running
   \<and> update_page_score 2 (- MLCACHE_SCALE) False running = running
   \<and> pages (running\<lparr>misses := 1, t := 2, weight_average := 44, items_in_cache := 2\<rparr>)
       = pages running"
proof -
  have a: "mapping (pages running 2) = None" by (simp add: running_mapping)
  have b: "mlcache_pageget (Some 1) (Some [Page 2, Page 1, Page 3]) False running
       = Inr (running\<lparr>misses := 1, t := 2, weight_average := 44, items_in_cache := 2\<rparr>)"
    by (simp add: mlcache_pageget_def update_cache_scores_miss update_average_def sdiv_word_def
        running_eval)
  show ?thesis
    using a b
      miss_path_changes_nothing [of 1 "Some [Page 2, Page 1, Page 3]" running 2
        "- MLCACHE_SCALE" False]
    by blast
qed




text \<open>
  C4, as the code has it. On a miss where the collection is absent, or holds no slot
  for the missed item, or the missed item has a live mapping (its slots are skipped),
  the missed item is left as it was, by the scan and by the whole lookup: no seed
  from the running average is applied.
\<close>

theorem miss_without_entry_keeps_score:
  assumes "case mapping_arg of None \<Rightarrow> True
           | Some tree \<Rightarrow> Page page \<notin> set tree \<or> mapping (pages s page) \<noteq> None"
  shows "pages (update_cache_scores page mapping_arg False s) page = pages s page
         \<and> (\<forall>s'. mlcache_pageget (Some page) mapping_arg False s = Inr s' \<longrightarrow>
              pages s' page = pages s page)"
  by (auto simp: update_cache_scores_miss mlcache_pageget_def Let_def dest: update_average_pages)

theorem miss_without_entry_keeps_score_witness:
  "Page 5 \<notin> set [Page 2, Page 3]
   \<and> mlcache_pageget (Some 5) (Some [Page 2, Page 3]) False running
       = Inr (running\<lparr>misses := 1, t := 2, weight_average := 45, items_in_cache := 2\<rparr>)
   \<and> pages (update_cache_scores 5 (Some [Page 2, Page 3]) False running) 5 = pages running 5
   \<and> pages (running\<lparr>misses := 1, t := 2, weight_average := 45, items_in_cache := 2\<rparr>) 5
       = pages running 5"
proof -
  have a: "Page 5 \<notin> set [Page 2, Page 3]" by simp
  then have a': "case Some [Page 2, Page 3] of None \<Rightarrow> True
           | Some tree \<Rightarrow> Page 5 \<notin> set tree \<or> mapping (pages running 5) \<noteq> None"
    by simp
  have b: "mlcache_pageget (Some 5) (Some [Page 2, Page 3]) False running
       = Inr (running\<lparr>misses := 1, t := 2, weight_average := 45, items_in_cache := 2\<rparr>)"
    by (simp add: mlcache_pageget_def update_cache_scores_miss update_average_def sdiv_word_def
        running_eval)
  show ?thesis
    using a b miss_without_entry_keeps_score [OF a'] by blast
qed

text \<open>
  In \<open>running\<close> the average is 42 and page 5 has score 7 and no slot in the
  collection. After the miss its score is still 7, not 42.
\<close>

theorem miss_without_entry_counterexample:
  "mlcache_score (pages (update_cache_scores 5 None False running) 5) = 7
   \<and> mlcache_score (pages (update_cache_scores 5 (Some [Page 2, Page 3]) False running) 5) = 7
   \<and> weight_average (update_cache_scores 5 None False running) = 42"
  by (simp add: update_cache_scores_def penalize_pages_def update_page_score_unmapped
      running_eval)

text \<open>
  C5, as the code has it. For an item with a live mapping, a hit takes its score to
  \<open>(score - 100) + (B(t - 1, plays) - B(t, plays) * plays)\<close> in 64-bit arithmetic,
  where \<open>B\<close> is \<open>upperBound\<close> of the round counter cut to an \<open>int\<close>, and changes
  nothing else: not the item's other fields, not another page, not a counter. In a
  round \<open>t\<close> that is not 0 and keeps \<open>K\<^sup>2 * (t + 1)\<close> below \<open>2\<^sup>3\<^sup>2\<close>, and for a play count
  that is not negative, \<open>B\<close> is the specification's bound of the round counter.
\<close>

theorem hit_updates_only_item:
  assumes "mapping (pages s page) \<noteq> None"
  shows "update_cache_scores page mapping_arg True s =
           s\<lparr>pages := (pages s)(page := (pages s page)
              \<lparr>mlcache_score :=
                 (mlcache_score (pages s page) - 100)
                 + (upperBound (ucast (t s - 1)) (mlcache_plays (pages s page))
                    - upperBound (ucast (t s)) (mlcache_plays (pages s page))
                        * scast (mlcache_plays (pages s page)))\<rparr>)\<rparr>
         \<and> (\<forall>q. q \<noteq> page \<longrightarrow>
               pages (update_cache_scores page mapping_arg True s) q = pages s q)
         \<and> (t s \<noteq> 0 \<and> 10000 * (unat (t s) + 1) < 2 ^ 32
              \<and> 0 \<le> sint (mlcache_plays (pages s page)) \<longrightarrow>
             mlcache_score (pages (update_cache_scores page mapping_arg True s) page) =
               mlcache_score (pages s page) - 100
               + word_of_nat (bound_spec (unat (t s) - 1) (unat (mlcache_plays (pages s page))))
               - word_of_nat (bound_spec (unat (t s)) (unat (mlcache_plays (pages s page))))
                   * word_of_nat (unat (mlcache_plays (pages s page))))"
proof -
  have a: "update_cache_scores page mapping_arg True s =
           s\<lparr>pages := (pages s)(page := (pages s page)
              \<lparr>mlcache_score :=
                 (mlcache_score (pages s page) - 100)
                 + (upperBound (ucast (t s - 1)) (mlcache_plays (pages s page))
                    - upperBound (ucast (t s)) (mlcache_plays (pages s page))
                        * scast (mlcache_plays (pages s page)))\<rparr>)\<rparr>"
    using assms
    by (auto simp: update_cache_scores_def update_page_score_def Let_def MLCACHE_SCALE_def
        add_diff_eq)
  have b: "\<forall>q. q \<noteq> page \<longrightarrow>
               pages (update_cache_scores page mapping_arg True s) q = pages s q"
    by (simp add: update_cache_scores_def update_page_score_other)
  show ?thesis
    using a b hit_score_in_range [OF assms, of mapping_arg] by blast
qed

text \<open>
  In \<open>hitting\<close>, round 3, page 1 has score 7 and two plays: with
  \<open>bound(2, 2) = 374\<close> and \<open>bound(3, 2) = 387\<close> the hit takes the score to
  \<open>7 - 100 + 374 - 387 * 2 = -493\<close>.
\<close>

theorem hit_updates_only_item_witness:
  "mapping (pages hitting 1) \<noteq> None \<and> t hitting \<noteq> 0
   \<and> 10000 * (unat (t hitting) + 1) < 2 ^ 32
   \<and> 0 \<le> sint (mlcache_plays (pages hitting 1))
   \<and> mlcache_score (pages (update_cache_scores 1 None True hitting) 1) = - 493
   \<and> pages (update_cache_scores 1 None True hitting) 2 = pages hitting 2"
proof -
  have a: "mapping (pages hitting 1) \<noteq> None"
    by (simp add: hitting_fields resident_fields)
  have b: "t hitting \<noteq> 0" by (simp add: hitting_fields)
  have c: "10000 * (unat (t hitting) + 1) < 2 ^ 32" by (simp add: hitting_fields)
  have d: "0 \<le> sint (mlcache_plays (pages hitting 1))"
    by (simp add: hitting_fields resident_fields)
  have e: "(2::nat) \<noteq> 1" by simp
  note th = hit_updates_only_item [OF a, of None]
  have "mlcache_score (pages (update_cache_scores 1 None True hitting) 1) =
      mlcache_score (pages hitting 1) - 100
      + word_of_nat (bound_spec (unat (t hitting) - 1) (unat (mlcache_plays (pages hitting 1))))
      - word_of_nat (bound_spec (unat (t hitting)) (unat (mlcache_plays (pages hitting 1))))
          * word_of_nat (unat (mlcache_plays (pages hitting 1)))"
    using th b c d by blast
  then have f: "mlcache_score (pages (update_cache_scores 1 None True hitting) 1) = - 493"
    by (simp add: hitting_fields resident_fields bound_spec_eq fls.simps isqrt.simps)
  have g: "pages (update_cache_scores 1 None True hitting) 2 = pages hitting 2"
    using th e by blast
  show ?thesis
    using a b c d f g by blast
qed

text \<open>
  In \<open>wrapped\<close>, round 429497, page 1 has score 0 and one play. The code's bounds are
  469 and 509 and the hit leaves the score at -140; the specification's bounds of
  rounds 429496 and 429497 are both 800, which would leave -100.
\<close>

theorem hit_bound_counterexample:
  "mlcache_score (pages (update_cache_scores 1 None True wrapped) 1) = - 140
   \<and> (0 - 100 + word_of_nat (bound_spec 429496 1) - word_of_nat (bound_spec 429497 1) * 1
        :: 64 word) = - 100"
  by (simp add: update_cache_scores_def update_page_score_def wrapped_fields resident_fields
      upperBound_eval bound_spec_eq)

text \<open>
  C6, as the code has it. A hit lookup on an engine whose counters are all zero, for an
  item with a live mapping and score 0, returns without a trap, takes \<open>t\<close> from 0 to
  1, leaves the item's play count as it is, and leaves its score at
  \<open>-K + bound(0, n) - bound(1, n) * n\<close> for that play count \<open>n\<close>.
\<close>

theorem first_hit_on_fresh_engine:
  assumes "hits s = 0" and "t s = 0" and "weight_average s = 0" and "items_in_cache s = 0"
    and "mapping (pages s p) \<noteq> None" and "mlcache_score (pages s p) = 0"
  shows "\<exists>s'. mlcache_pageget (Some p) mapping_arg True s = Inr s'
           \<and> hits s' = 1 \<and> t s' = 1
           \<and> mlcache_plays (pages s' p) = mlcache_plays (pages s p)
           \<and> mlcache_score (pages s' p) =
               - MLCACHE_SCALE + upperBound 0 (mlcache_plays (pages s p))
               - upperBound 1 (mlcache_plays (pages s p)) * scast (mlcache_plays (pages s p))"
  using assms
  by (auto simp: mlcache_pageget_def update_cache_scores_def update_page_score_def
      update_average_def Let_def MLCACHE_SCALE_def upperBound_zero_step)

theorem first_hit_on_fresh_engine_witness:
  "hits fresh = 0 \<and> t fresh = 0 \<and> weight_average fresh = 0 \<and> items_in_cache fresh = 0
   \<and> mapping (pages fresh 1) \<noteq> None \<and> mlcache_score (pages fresh 1) = 0
   \<and> (\<exists>s'. mlcache_pageget (Some 1) None True fresh = Inr s'
           \<and> hits s' = 1 \<and> t s' = 1
           \<and> mlcache_plays (pages s' 1) = mlcache_plays (pages fresh 1)
           \<and> mlcache_score (pages s' 1) =
               - MLCACHE_SCALE + upperBound 0 (mlcache_plays (pages fresh 1))
               - upperBound 1 (mlcache_plays (pages fresh 1))
                   * scast (mlcache_plays (pages fresh 1)))"
proof -
  have a: "hits fresh = 0" and b: "t fresh = 0" and c: "weight_average fresh = 0"
    and d: "items_in_cache fresh = 0" and e: "mapping (pages fresh 1) \<noteq> None"
    and f: "mlcache_score (pages fresh 1) = 0"
    by (simp_all add: fresh_fields resident_fields)
  show ?thesis
    using a b c d e f first_hit_on_fresh_engine [OF a b c d e f, of None] by blast
qed

text \<open>
  On \<open>fresh\<close> the first hit on page 1 leaves the play count at 0 and the score at
  -100; with play count 1 and \<open>bound(1, 1) = 529\<close> the score would be -629.
\<close>

theorem first_hit_counterexample:
  "mlcache_pageget (Some 1) None True fresh =
     Inr (fresh\<lparr>hits := 1, t := 1, weight_average := - 100, items_in_cache := 1,
                pages := (pages fresh)(1 := resident (- 100) 0)\<rparr>)
   \<and> mlcache_plays (resident (- 100) 0) = 0
   \<and> - MLCACHE_SCALE + upperBound 0 1 - upperBound 1 1 * 1 = (- 629 :: 64 word)"
  by (simp add: mlcache_pageget_def update_cache_scores_def update_page_score_def
      update_average_def upperBound_zero_step upperBound_zero_plays upperBound_1_1
      MLCACHE_SCALE_def sdiv_word_def fresh_fields resident_fields)




text \<open>
  C8, as the code has it. The lookup increments the count before it calls
  \<open>update_average\<close>, which replaces a count of 0 by a count that is not 0, adds the
  score divided by the count to the average, and does not increment the count: the
  divisor is the count after the increment. The divisor is never 0: neither one call
  nor any sequence of lookups, from any state, ends in a division by zero. A
  sequence of fewer than \<open>2\<^sup>6\<^sup>4 - 1\<close> lookups from a count of 0 returns, and has
  counted the lookups whose page is not null.
\<close>

theorem fold_divides_by_incremented_count:
  "update_average p s \<noteq> Inl DivideByZero
   \<and> lookups evs s \<noteq> Inl DivideByZero
   \<and> (items_in_cache s \<noteq> 0
        \<and> \<not> (mlcache_score (pages s p) = - (2 ^ 63) \<and> items_in_cache s = - 1) \<longrightarrow>
        update_average p s =
          Inr (s\<lparr>weight_average :=
                  weight_average s + sdiv_word (mlcache_score (pages s p)) (items_in_cache s)\<rparr>))
   \<and> (items_in_cache s = 0 \<and> mlcache_score (pages s p) \<noteq> - (2 ^ 63) \<longrightarrow>
        (\<exists>s'. update_average p s = Inr s' \<and> items_in_cache s' \<noteq> 0
           \<and> weight_average s' =
               weight_average s + sdiv_word (mlcache_score (pages s p)) (items_in_cache s')))
   \<and> mlcache_pageget (Some p) mapping_arg hit s =
       update_average p
         ((update_cache_scores p mapping_arg hit
             ((if hit then s\<lparr>hits := hits s + 1\<rparr> else s\<lparr>misses := misses s + 1\<rparr>)
                \<lparr>t := t s + 1\<rparr>))
          \<lparr>items_in_cache := items_in_cache s + 1\<rparr>)
   \<and> (unat (items_in_cache s) + length evs < 2 ^ 64 - 1 \<longrightarrow>
        (\<exists>s'. lookups evs s = Inr s'
           \<and> unat (items_in_cache s') =
               unat (items_in_cache s) + length (filter (\<lambda>ev. fst ev \<noteq> None) evs)))"
  using update_average_no_div0 [of p s] lookups_no_div0 [of evs s]
    update_average_nonzero_count [of s p] update_average_zero_count [of s p]
    mlcache_pageget_unfold [of p mapping_arg hit s] lookups_total [of s evs]
  by blast

text \<open>
  In \<open>running\<close> the count is 1. In \<open>saturating\<close> the count is 0 when \<open>update_average\<close>
  is called. From \<open>fresh\<close>, three lookups, one of them with a null page, return with a
  count of 2.
\<close>

theorem fold_divides_by_incremented_count_witness:
  "items_in_cache running \<noteq> 0
   \<and> \<not> (mlcache_score (pages running 1) = - (2 ^ 63) \<and> items_in_cache running = - 1)
   \<and> update_average 1 running = Inr (running\<lparr>weight_average := 47\<rparr>)
   \<and> items_in_cache saturating = 0
   \<and> mlcache_score (pages saturating 1) \<noteq> - (2 ^ 63)
   \<and> (\<exists>s'. update_average 1 saturating = Inr s' \<and> items_in_cache s' \<noteq> 0
         \<and> weight_average s' =
             weight_average saturating
             + sdiv_word (mlcache_score (pages saturating 1)) (items_in_cache s'))
   \<and> unat (items_in_cache fresh)
       + length [(Some 1, None, True), (None, None, False), (Some (1::nat), Some [Page 1], False)]
       < 2 ^ 64 - 1
   \<and> (\<exists>s'. lookups [(Some 1, None, True), (None, None, False), (Some 1, Some [Page 1], False)]
               fresh = Inr s'
         \<and> unat (items_in_cache s') = 2)"
proof -
  have a: "items_in_cache running \<noteq> 0" by (simp add: running_fields)
  have b: "\<not> (mlcache_score (pages running 1) = - (2 ^ 63) \<and> items_in_cache running = - 1)"
    by (simp add: running_eval)
  have "update_average 1 running =
      Inr (running\<lparr>weight_average :=
             weight_average running
             + sdiv_word (mlcache_score (pages running 1)) (items_in_cache running)\<rparr>)"
    using a b fold_divides_by_incremented_count [of 1 running "[]" None False] by blast
  then have c: "update_average 1 running = Inr (running\<lparr>weight_average := 47\<rparr>)"
    by (simp add: running_eval sdiv_word_def)
  have d: "items_in_cache saturating = 0" by (simp add: saturating_fields)
  have e: "mlcache_score (pages saturating 1) \<noteq> - (2 ^ 63)"
    by (simp add: saturating_fields)
  have f: "\<exists>s'. update_average 1 saturating = Inr s' \<and> items_in_cache s' \<noteq> 0
         \<and> weight_average s' =
             weight_average saturating
             + sdiv_word (mlcache_score (pages saturating 1)) (items_in_cache s')"
    using d e fold_divides_by_incremented_count [of 1 saturating "[]" None False] by blast
  have g: "unat (items_in_cache fresh)
       + length [(Some 1, None, True), (None, None, False), (Some (1::nat), Some [Page 1], False)]
       < 2 ^ 64 - 1"
    by (simp add: fresh_fields)
  have "\<exists>s'. lookups [(Some 1, None, True), (None, None, False), (Some 1, Some [Page 1], False)]
               fresh = Inr s'
         \<and> unat (items_in_cache s') =
             unat (items_in_cache fresh)
             + length (filter (\<lambda>ev. fst ev \<noteq> None)
                 [(Some 1, None, True), (None, None, False), (Some (1::nat), Some [Page 1], False)])"
    using g fold_divides_by_incremented_count
      [of 1 fresh "[(Some 1, None, True), (None, None, False), (Some 1, Some [Page 1], False)]"
        None False]
    by blast
  moreover have "unat (items_in_cache fresh)
             + length (filter (\<lambda>ev. fst ev \<noteq> None)
                 [(Some 1, None, True), (None, None, False), (Some (1::nat), Some [Page 1], False)])
             = 2"
    by (simp add: fresh_fields)
  ultimately have h: "\<exists>s'. lookups
        [(Some 1, None, True), (None, None, False), (Some 1, Some [Page 1], False)] fresh = Inr s'
         \<and> unat (items_in_cache s') = 2"
    by (simp only:)
  show ?thesis
    using a b c d e f g h by blast
qed

text \<open>
  In \<open>running\<close> the count is 1, the average 42, and page 1 has score 5. The
  specification's fold gives average 47 and count 2. \<open>update_average\<close> alone
  leaves the count at 1; the lookup gives count 2 and average \<open>42 + 5 / 2 = 44\<close>.
  In \<open>saturating\<close> the count is 0, the average 42 and the score 5: the
  specification's fold leaves the average at 42, \<open>update_average\<close> takes it to 37.
\<close>

theorem fold_order_counterexample:
  "fold_spec 1 running = running\<lparr>weight_average := 47, items_in_cache := 2\<rparr>
   \<and> update_average 1 running = Inr (running\<lparr>weight_average := 47\<rparr>)
   \<and> mlcache_pageget (Some 1) None False running =
       Inr (running\<lparr>misses := 1, t := 2, weight_average := 44, items_in_cache := 2\<rparr>)
   \<and> weight_average (fold_spec 1 saturating) = 42
   \<and> update_average 1 saturating =
       Inr (saturating\<lparr>items_in_cache := - 1, weight_average := 37\<rparr>)"
  by (simp add: fold_spec_def mlcache_pageget_def update_cache_scores_miss update_average_def
      sdiv_word_def running_eval saturating_fields)

text \<open>
  C9. When \<open>proc_create\<close> fails, start-up is to report a failure and to register
  nothing. \<open>mlcache_init\<close> registers nothing, but returns \<open>NULL\<close>, which is 0, the
  value it also returns after a successful start.
\<close>

theorem init_failure_returns_success_value:
  "mlcache_init None m = (0, m)
   \<and> fst (mlcache_init (Some e) m) = fst (mlcache_init None m)"
  by (simp add: mlcache_init_def)

text \<open>
  C10. A lookup with a null page pointer returns at once: no counter, no average and
  no page changes.
\<close>

theorem null_page_lookup_is_noop:
  "mlcache_pageget None mapping_arg hit s = Inr s"
  by (simp add: mlcache_pageget_def)

end
